theory Spec2Isabelle
  imports Main "HOL-Library.Word"
begin

unbundle bit_operations_syntax

section \<open>Python integers and their shift operators\<close>

text \<open>
  The module works on Python integers, which are unbounded: they are modelled as \<open>int\<close>.
  Python's \<open>&\<close> and \<open>|\<close> act on the infinite two's-complement representation, as
  \<open>AND\<close> and \<open>OR\<close> on \<open>int\<close> do, and never fail. \<open><<\<close> and \<open>>>\<close> raise
  \<open>ValueError\<close> on a negative shift count; \<open>>>\<close> rounds towards minus infinity.
  A failed \<open>assert\<close> raises \<open>AssertionError\<close>.
\<close>

datatype error = AssertionError | ValueError

definition lshift :: "int \<Rightarrow> int \<Rightarrow> error + int" where
  "lshift a n = (if n < 0 then Inl ValueError else Inr (push_bit (nat n) a))"

definition rshift :: "int \<Rightarrow> int \<Rightarrow> error + int" where
  "rshift a n = (if n < 0 then Inl ValueError else Inr (drop_bit (nat n) a))"

definition WORD_SIZE :: int where
  "WORD_SIZE = 32"

section \<open>The class \<open>BitField\<close>\<close>

record BitField =
  from_bit :: int
  to_bit :: int
  mask_bf :: int

text \<open>
  The first loop of the constructor, \<open>for i in range(to_bit - from_bit + 1)\<close>, with the
  number of iterations left as the first argument and the mask so far as the second.
\<close>

fun ones_loop :: "nat \<Rightarrow> int \<Rightarrow> int" where
  "ones_loop 0 m = m"
| "ones_loop (Suc k) m = ones_loop k (push_bit 1 m OR 1)"

text \<open>The second loop of the constructor, \<open>for i in range(from_bit)\<close>.\<close>

fun shift_loop :: "nat \<Rightarrow> int \<Rightarrow> int" where
  "shift_loop 0 m = m"
| "shift_loop (Suc k) m = shift_loop k (push_bit 1 m)"

text \<open>
  \<open>BitField.__init__\<close>: the two assertions, then the two loops. \<open>range(n)\<close> runs
  \<open>nat n\<close> times (not at all for \<open>n \<le> 0\<close>).
\<close>

definition BitField_init :: "int \<Rightarrow> int \<Rightarrow> error + BitField" where
  "BitField_init f t =
     (if \<not> (0 \<le> f \<and> f < WORD_SIZE) then Inl AssertionError
      else if \<not> (f \<le> t \<and> t \<le> WORD_SIZE) then Inl AssertionError
      else Inr \<lparr>from_bit = f, to_bit = t,
                mask_bf = shift_loop (nat f) (ones_loop (nat (t - f + 1)) 0)\<rparr>)"

text \<open>\<open>BitField.extract\<close>.\<close>

definition extract_bf :: "BitField \<Rightarrow> int \<Rightarrow> error + int" where
  "extract_bf self word =
     (let result = mask_bf self AND word in rshift result (from_bit self))"

text \<open>\<open>BitField.insert\<close>.\<close>

definition insert_bf :: "BitField \<Rightarrow> int \<Rightarrow> int \<Rightarrow> error + int" where
  "insert_bf self val word =
     (case lshift val (from_bit self) of
        Inl e \<Rightarrow> Inl e
      | Inr val1 \<Rightarrow> (let val2 = val1 AND mask_bf self in Inr (word OR val2)))"

section \<open>Formatting integers for the log\<close>

text \<open>
  \<open>sign_extend\<close> builds its \<open>log.debug\<close> messages with \<open>str.format\<close> before it
  calls the logger, so the messages are built whatever the logging level is. Formatting an
  integer with \<open>{}\<close> converts it to a decimal string, and CPython (3.11 and later, in its
  default setting) raises \<open>ValueError\<close> when that string would have more than
  \<open>sys.int_info.default_max_str_digits = 4300\<close> digits, the sign not counted. \<open>bin\<close> is
  exempt from the limit and never fails.
\<close>

definition MAX_STR_DIGITS :: nat where
  "MAX_STR_DIGITS = 4300"

definition str_int :: "int \<Rightarrow> error + unit" where
  "str_int n = (if 10 ^ MAX_STR_DIGITS \<le> \<bar>n\<bar> then Inl ValueError else Inr ())"

text \<open>The integers that one call of \<open>format\<close> converts to decimal, from left to right.\<close>

fun format_ints :: "int list \<Rightarrow> error + unit" where
  "format_ints [] = Inr ()"
| "format_ints (n # ns) =
     (case str_int n of Inl e \<Rightarrow> Inl e | Inr u \<Rightarrow> format_ints ns)"

section \<open>The function \<open>sign_extend\<close>\<close>

text \<open>
  The first statement formats \<open>field\<close>, \<open>bin(field)\<close> and \<open>width\<close>, before both
  assertions. The second assertion is \<open>field >= 0 and field < 1 << (width + 1)\<close>: the
  shift is only evaluated when \<open>field >= 0\<close>. The branch of a set sign bit formats
  \<open>width - 1\<close> and \<open>sign_bit\<close>, computes \<open>extended\<close>, and formats \<open>extended\<close> and
  \<open>bin(extended)\<close> before it returns.
\<close>

definition sign_extend :: "int \<Rightarrow> int \<Rightarrow> error + int" where
  "sign_extend field width =
     (case format_ints [field, width] of
        Inl e \<Rightarrow> Inl e
      | Inr u \<Rightarrow>
     (if \<not> (width > 1) then Inl AssertionError
      else if \<not> (field \<ge> 0) then Inl AssertionError
      else
        (case lshift 1 (width + 1) of
           Inl e \<Rightarrow> Inl e
         | Inr bound \<Rightarrow>
             (if \<not> (field < bound) then Inl AssertionError
              else
                (case lshift 1 (width - 1) of
                   Inl e \<Rightarrow> Inl e
                 | Inr sign_bit \<Rightarrow>
                     (let mask1 = sign_bit - 1 in
                      if field AND sign_bit \<noteq> 0 then
                        (case format_ints [width - 1, sign_bit] of
                           Inl e \<Rightarrow> Inl e
                         | Inr u1 \<Rightarrow>
                             (let extended = (field AND mask1) - sign_bit in
                              (case format_ints [extended] of
                                 Inl e \<Rightarrow> Inl e
                               | Inr u2 \<Rightarrow> Inr extended)))
                      else Inr field))))))"

text \<open>\<open>BitField.extract_signed\<close>.\<close>

definition extract_signed :: "BitField \<Rightarrow> int \<Rightarrow> error + int" where
  "extract_signed self word =
     (case extract_bf self word of
        Inl e \<Rightarrow> Inl e
      | Inr extracted \<Rightarrow> sign_extend extracted (to_bit self - from_bit self + 1))"

section \<open>Closed forms of the constructor's loops\<close>

lemma ones_loop_eq: "ones_loop k m = m * 2 ^ k + (2 ^ k - 1)"
proof (induction k arbitrary: m)
  case 0 show ?case by simp
next
  case (Suc k)
  have "ones_loop (Suc k) m = ones_loop k (2 * m + 1)"
    by (simp add: or_one_eq mult.commute)
  also have "\<dots> = (2 * m + 1) * 2 ^ k + (2 ^ k - 1)"
    by (rule Suc.IH)
  also have "\<dots> = m * 2 ^ Suc k + (2 ^ Suc k - 1)"
    by (simp add: algebra_simps)
  finally show ?case .
qed

lemma shift_loop_eq: "shift_loop k m = m * 2 ^ k"
proof (induction k arbitrary: m)
  case 0 show ?case by simp
next
  case (Suc k)
  have "shift_loop (Suc k) m = shift_loop k (2 * m)"
    by (simp add: mult.commute)
  also have "\<dots> = (2 * m) * 2 ^ k"
    by (rule Suc.IH)
  finally show ?case by simp
qed

section \<open>What the constructor returns\<close>

lemma init_Inr:
  assumes "BitField_init f t = Inr bf"
  shows "bf = \<lparr>from_bit = f, to_bit = t, mask_bf = push_bit (nat f) (mask (nat (t - f + 1)))\<rparr>"
    and "0 \<le> f" and "f < 32" and "f \<le> t" and "t \<le> 32"
  using assms
  by (auto simp add: BitField_init_def WORD_SIZE_def ones_loop_eq shift_loop_eq
      push_bit_eq_mult mask_eq_exp_minus_1 split: if_splits)

lemma init_ok:
  assumes "0 \<le> f" and "f < 32" and "f \<le> t" and "t \<le> 32"
  shows "BitField_init f t =
     Inr \<lparr>from_bit = f, to_bit = t, mask_bf = push_bit (nat f) (mask (nat (t - f + 1)))\<rparr>"
  using assms
  by (simp add: BitField_init_def WORD_SIZE_def ones_loop_eq shift_loop_eq
      push_bit_eq_mult mask_eq_exp_minus_1)

section \<open>Bitwise facts about a run of ones\<close>

lemma extract_mask:
  "drop_bit k (push_bit k (mask w) AND (x::int)) = take_bit w (drop_bit k x)"
  by (rule bit_eqI) (auto simp add: bit_simps)

lemma insert_mask:
  "push_bit k (v::int) AND push_bit k (mask w) = push_bit k (take_bit w v)"
  by (rule bit_eqI) (auto simp add: bit_simps)

lemma bit_field_mask:
  "bit (push_bit k (mask w) :: int) n \<longleftrightarrow> k \<le> n \<and> n < k + w"
  by (auto simp add: bit_simps)

section \<open>The sign bit of a value that fits its width\<close>

lemma div_mod_top:
  assumes "2 ^ n \<le> (x::int)" and "x < 2 ^ Suc n"
  shows "x div 2 ^ n = 1" and "x mod 2 ^ n = x - 2 ^ n"
proof -
  define y where "y = x - 2 ^ n"
  have y: "0 \<le> y" "y < 2 ^ n" and x: "x = y + 2 ^ n"
    using assms by (simp_all add: y_def)
  have "(y + 2 ^ n) div 2 ^ n = y div 2 ^ n + 1"
    by (rule div_add_self2) simp
  then show "x div 2 ^ n = 1"
    using y by (simp add: x div_pos_pos_trivial)
  have "(y + 2 ^ n) mod 2 ^ n = y mod 2 ^ n"
    by (rule mod_add_self2)
  then show "x mod 2 ^ n = x - 2 ^ n"
    using y by (simp add: x mod_pos_pos_trivial)
qed

lemma top_bit_iff:
  assumes "0 \<le> (x::int)" and "x < 2 ^ Suc n"
  shows "x AND 2 ^ n \<noteq> 0 \<longleftrightarrow> 2 ^ n \<le> x"
proof (cases "2 ^ n \<le> x")
  case True
  then have "bit x n"
    using assms(2) by (simp add: bit_iff_odd div_mod_top(1))
  then show ?thesis
    using True by (simp add: and_exp_eq_0_iff_not_bit)
next
  case False
  then have "x div 2 ^ n = 0"
    using assms(1) by (simp add: div_pos_pos_trivial)
  then have "\<not> bit x n"
    by (simp add: bit_iff_odd)
  then show ?thesis
    using False by (simp add: and_exp_eq_0_iff_not_bit)
qed

lemma low_bits_eq:
  assumes "2 ^ n \<le> (x::int)" and "x < 2 ^ Suc n"
  shows "x AND (2 ^ n - 1) = x - 2 ^ n"
proof -
  have "x AND (2 ^ n - 1) = x mod 2 ^ n"
    by (simp add: mask_eq_exp_minus_1[symmetric] take_bit_eq_mask[symmetric] take_bit_eq_mod)
  then show ?thesis
    using assms by (simp add: div_mod_top(2))
qed

section \<open>Results of insertion and extraction\<close>

lemma drop_push: "drop_bit k (push_bit k (x::int)) = x"
  by (rule bit_eqI) (simp add: bit_simps)

lemma insert_Inr:
  assumes "BitField_init f t = Inr bf"
  shows "insert_bf bf v word = Inr (word OR push_bit (nat f) (take_bit (nat (t - f + 1)) v))"
proof -
  note bf = init_Inr [OF assms]
  have m: "mask_bf bf = push_bit (nat f) (mask (nat (t - f + 1)))" and fb: "from_bit bf = f"
    using bf(1) by simp_all
  have "insert_bf bf v word = Inr (word OR (push_bit (nat f) v AND mask_bf bf))"
    using bf(2) by (simp add: insert_bf_def lshift_def fb Let_def)
  then show ?thesis
    by (simp only: m insert_mask)
qed

lemma extract_Inr:
  assumes "BitField_init f t = Inr bf"
  shows "extract_bf bf word = Inr (take_bit (nat (t - f + 1)) (drop_bit (nat f) word))"
proof -
  note bf = init_Inr [OF assms]
  have m: "mask_bf bf = push_bit (nat f) (mask (nat (t - f + 1)))" and fb: "from_bit bf = f"
    using bf(1) by simp_all
  have "extract_bf bf word = Inr (drop_bit (nat f) (mask_bf bf AND word))"
    using bf(2) by (simp add: extract_bf_def rshift_def fb Let_def)
  then show ?thesis
    by (simp only: m extract_mask)
qed

lemma field_clear:
  assumes "\<forall>n. f \<le> int n \<and> int n \<le> t \<longrightarrow> \<not> bit (word::int) n" and "0 \<le> f"
  shows "take_bit (nat (t - f + 1)) (drop_bit (nat f) word) = 0"
proof (rule bit_eqI)
  fix n
  have "\<not> bit word (nat f + n)" if "n < nat (t - f + 1)"
  proof -
    have "f \<le> int (nat f + n) \<and> int (nat f + n) \<le> t"
      using that assms(2) by auto
    then show ?thesis using assms(1) by blast
  qed
  then show "bit (take_bit (nat (t - f + 1)) (drop_bit (nat f) word)) n = bit (0::int) n"
    by (auto simp add: bit_simps)
qed

lemma card_run: "card {n::nat. k \<le> n \<and> n < k + w} = w"
proof -
  have "{n::nat. k \<le> n \<and> n < k + w} = {k..<k + w}" by auto
  then show ?thesis by simp
qed

section \<open>The limit on decimal conversion\<close>

lemma limit_ge: "(2::int) ^ 33 \<le> 10 ^ MAX_STR_DIGITS"
proof -
  have "(2::int) ^ 33 \<le> 10 ^ 33"
    by (rule power_mono) simp_all
  also have "\<dots> \<le> 10 ^ MAX_STR_DIGITS"
    by (rule power_increasing) (simp_all add: MAX_STR_DIGITS_def)
  finally show ?thesis .
qed


lemma small_lt_limit: "n < 2 ^ 33 \<Longrightarrow> (n::int) < 10 ^ MAX_STR_DIGITS"
  using limit_ge by simp

lemma format_line_82:
  "format_ints [field, width] =
     (if 10 ^ MAX_STR_DIGITS \<le> \<bar>field\<bar> \<or> 10 ^ MAX_STR_DIGITS \<le> \<bar>width\<bar>
      then Inl ValueError else Inr ())"
  by (simp add: str_int_def)

section \<open>The branch of a set sign bit\<close>

lemma sign_bit_le:
  assumes "0 \<le> (x::int)" and "x AND 2 ^ n \<noteq> 0"
  shows "2 ^ n \<le> x"
proof -
  have "bit x n"
    using assms(2) by (simp add: and_exp_eq_0_iff_not_bit)
  then have "x AND 2 ^ n = 2 ^ n"
    by (intro bit_eqI) (auto simp add: bit_and_iff bit_exp_iff)
  moreover have "x AND 2 ^ n \<le> x"
    using assms(1) by (rule AND_upper1)
  ultimately show ?thesis by simp
qed

lemma extended_bounds:
  "- (2 ^ n) \<le> ((x::int) AND (2 ^ n - 1)) - 2 ^ n" and "(x AND (2 ^ n - 1)) - 2 ^ n < 0"
proof -
  have eq: "x AND (2 ^ n - 1) = take_bit n x"
    by (simp add: take_bit_eq_mask mask_eq_exp_minus_1)
  show "- (2 ^ n) \<le> (x AND (2 ^ n - 1)) - 2 ^ n"
    by (simp add: eq)
  show "(x AND (2 ^ n - 1)) - 2 ^ n < 0"
    by (simp add: eq)
qed

lemma format_negative_branch:
  assumes "1 < width" and "width < 10 ^ MAX_STR_DIGITS"
    and "0 \<le> field" and "field < 10 ^ MAX_STR_DIGITS"
    and "field AND 2 ^ n \<noteq> 0"
  shows "format_ints [width - 1, 2 ^ n] = Inr ()"
    and "format_ints [(field AND (2 ^ n - 1)) - 2 ^ n] = Inr ()"
proof -
  have sb: "(2::int) ^ n < 10 ^ MAX_STR_DIGITS"
    using sign_bit_le [OF assms(3,5)] assms(4) by simp
  have "\<bar>width - 1\<bar> < 10 ^ MAX_STR_DIGITS"
    using assms(1,2) by simp
  then show "format_ints [width - 1, 2 ^ n] = Inr ()"
    using sb by (simp add: str_int_def)
  have "\<bar>(field AND (2 ^ n - 1)) - 2 ^ n\<bar> \<le> 2 ^ n"
    using extended_bounds [of n field] by simp
  from this sb have "\<bar>(field AND (2 ^ n - 1)) - 2 ^ n\<bar> < 10 ^ MAX_STR_DIGITS"
    by (rule order_le_less_trans)
  then show "format_ints [(field AND (2 ^ n - 1)) - 2 ^ n] = Inr ()"
    by (simp add: str_int_def)
qed

section \<open>The result of \<open>sign_extend\<close>\<close>

lemma sign_extend_unfold:
  assumes "width > 1" and "width < 10 ^ MAX_STR_DIGITS"
    and "0 \<le> field" and "field < 10 ^ MAX_STR_DIGITS"
    and "field < 2 ^ nat (width + 1)"
  shows "sign_extend field width =
     Inr (if field AND 2 ^ nat (width - 1) \<noteq> 0
          then (field AND (2 ^ nat (width - 1) - 1)) - 2 ^ nat (width - 1) else field)"
proof -
  have first: "format_ints [field, width] = Inr ()"
    using assms(1-4) by (simp add: format_line_82 del: format_ints.simps)
  show ?thesis
  proof (cases "field AND 2 ^ nat (width - 1) \<noteq> 0")
    case True
    note fmt = format_negative_branch [OF assms(1-4) True]
    show ?thesis
      using assms(1,3,5) True
      by (simp add: sign_extend_def first lshift_def Let_def fmt del: format_ints.simps)
  next
    case False
    then show ?thesis
      using assms(1,3,5)
      by (simp add: sign_extend_def first lshift_def Let_def del: format_ints.simps)
  qed
qed



lemma sign_extend_fits:
  assumes "width > 1" and "width < 10 ^ MAX_STR_DIGITS"
    and "0 \<le> field" and "field < 10 ^ MAX_STR_DIGITS"
    and "field < 2 ^ nat width"
  shows "sign_extend field width =
     Inr (if 2 ^ nat (width - 1) \<le> field then field - 2 ^ nat width else field)"
proof -
  define n where "n = nat (width - 1)"
  have w: "nat width = Suc n" and w1: "nat (width + 1) = Suc (Suc n)"
    using assms(1) by (simp_all add: n_def)
  have lt: "field < 2 ^ Suc n"
    using assms(5) by (simp only: w)
  moreover have "(2::int) ^ Suc n \<le> 2 ^ Suc (Suc n)"
    by simp
  ultimately have "field < 2 ^ nat (width + 1)"
    by (simp only: w1)
  note unf = sign_extend_unfold [OF assms(1-4) this, folded n_def]
  show ?thesis
  proof (cases "2 ^ n \<le> field")
    case True
    then have "field AND 2 ^ n \<noteq> 0"
      using top_bit_iff [OF assms(3) lt] by simp
    moreover have "(field AND (2 ^ n - 1)) - 2 ^ n = field - 2 ^ Suc n"
      using low_bits_eq [OF True lt] by simp
    ultimately show ?thesis
      using True unf by (simp add: w n_def [symmetric])
  next
    case False
    then have "\<not> field AND 2 ^ n \<noteq> 0"
      using top_bit_iff [OF assms(3) lt] by simp
    then show ?thesis
      using False unf by (simp add: n_def [symmetric])
  qed
qed

section \<open>Masks of fields that end below bit 32\<close>

lemma mask_32_bits:
  assumes "BitField_init f t = Inr bf" and "t \<le> 31"
  shows "0 \<le> mask_bf bf" and "mask_bf bf \<le> 2 ^ 32 - 1"
proof -
  note bf = init_Inr [OF assms(1)]
  have m: "mask_bf bf = push_bit (nat f) (mask (nat (t - f + 1)))"
    using bf(1) by simp
  show "0 \<le> mask_bf bf"
    by (simp add: m)
  have "mask_bf bf = take_bit 32 (mask_bf bf)"
    unfolding m using assms(2) bf(2)
    by (intro bit_eqI) (auto simp add: bit_simps)
  also have "\<dots> < 2 ^ 32"
    by (rule take_bit_int_less_exp)
  finally show "mask_bf bf \<le> 2 ^ 32 - 1"
    by simp
qed

section \<open>The claims of the specification\<close>

subsection \<open>C1: round trip\<close>

text \<open>
  Claim C1. For every field built from \<open>(from_bit, to_bit)\<close> with
  \<open>0 \<le> from_bit \<le> to_bit \<le> 31\<close>, every value with
  \<open>0 \<le> value < 2 ^ (to_bit - from_bit + 1)\<close> and every word in \<open>[0, 2 ^ 32)\<close> whose
  bits in positions \<open>from_bit..to_bit\<close> are all zero, construction and insertion succeed
  and extracting from the inserted word gives the value back.
\<close>

theorem round_trip:
  assumes "0 \<le> f" and "f \<le> t" and "t \<le> 31"
    and "0 \<le> v" and "v < 2 ^ nat (t - f + 1)"
    and "0 \<le> word" and "word < 2 ^ 32"
    and "\<forall>n. f \<le> int n \<and> int n \<le> t \<longrightarrow> \<not> bit word n"
  shows "\<exists>bf w'. BitField_init f t = Inr bf \<and> insert_bf bf v word = Inr w'
     \<and> extract_bf bf w' = Inr v"
proof -
  let ?k = "nat f" and ?w = "nat (t - f + 1)"
  obtain bf where init: "BitField_init f t = Inr bf"
    using assms(1-3) by (simp add: init_ok)
  let ?w' = "word OR push_bit ?k (take_bit ?w v)"
  have ins: "insert_bf bf v word = Inr ?w'"
    by (rule insert_Inr [OF init])
  have v: "take_bit ?w v = v"
    using assms(4,5) by (simp add: take_bit_int_eq_self)
  have "take_bit ?w (drop_bit ?k ?w') =
      take_bit ?w (drop_bit ?k word) OR take_bit ?w v"
    by (simp add: drop_bit_or take_bit_or drop_push)
  also have "\<dots> = v"
    using field_clear [OF assms(8,1)] by (simp add: v)
  finally have "extract_bf bf ?w' = Inr v"
    by (simp only: extract_Inr [OF init])
  then show ?thesis
    using init ins by blast
qed

text \<open>The docstring example of insertion, \<open>BitField(3,5).insert(0b101, 0b110)\<close>, read back.\<close>

theorem round_trip_witness:
  "\<exists>bf w'. BitField_init 3 5 = Inr bf \<and> insert_bf bf 5 6 = Inr w' \<and> extract_bf bf w' = Inr 5"
proof -
  have clear: "\<forall>n. (3::int) \<le> int n \<and> int n \<le> 5 \<longrightarrow> \<not> bit (6::int) n"
  proof (intro allI impI)
    fix n :: nat
    assume "(3::int) \<le> int n \<and> int n \<le> 5"
    then have "n = 3 \<or> n = 4 \<or> n = 5" by auto
    then show "\<not> bit (6::int) n" by (auto simp add: bit_iff_odd)
  qed
  show ?thesis
    using round_trip [of 3 5 5 6, OF _ _ _ _ _ _ _ clear] by simp
qed

subsection \<open>C2: mask construction\<close>

text \<open>
  Claim C2. For \<open>0 \<le> from_bit \<le> to_bit \<le> 31\<close> the constructor succeeds and its mask is
  \<open>((1 << (to_bit - from_bit + 1)) - 1) << from_bit\<close>: bit \<open>n\<close> of the mask is set exactly
  when \<open>from_bit \<le> n \<le> to_bit\<close>, so the set bits are contiguous, the lowest at
  \<open>from_bit\<close>, and there are \<open>to_bit - from_bit + 1\<close> of them.
\<close>

theorem mask_construction:
  assumes "0 \<le> f" and "f \<le> t" and "t \<le> 31"
  shows "\<exists>bf. BitField_init f t = Inr bf
     \<and> lshift 1 (t - f + 1) = Inr (2 ^ nat (t - f + 1))
     \<and> lshift (2 ^ nat (t - f + 1) - 1) f = Inr (mask_bf bf)
     \<and> (\<forall>n. bit (mask_bf bf) n \<longleftrightarrow> f \<le> int n \<and> int n \<le> t)
     \<and> int (card {n. bit (mask_bf bf) n}) = t - f + 1"
proof -
  let ?m = "push_bit (nat f) (mask (nat (t - f + 1))) :: int"
  let ?bf = "\<lparr>from_bit = f, to_bit = t, mask_bf = ?m\<rparr>"
  have init: "BitField_init f t = Inr ?bf"
    using assms by (simp add: init_ok)
  have one: "lshift 1 (t - f + 1) = Inr (2 ^ nat (t - f + 1))"
    using assms by (simp add: lshift_def)
  have closed: "lshift (2 ^ nat (t - f + 1) - 1) f = Inr ?m"
    using assms by (simp add: lshift_def mask_eq_exp_minus_1)
  have bits: "bit (mask_bf ?bf) n \<longleftrightarrow> f \<le> int n \<and> int n \<le> t" for n
    using assms by (auto simp add: bit_field_mask)
  have "{n. bit (mask_bf ?bf) n} = {n. nat f \<le> n \<and> n < nat f + nat (t - f + 1)}"
    by (simp add: bit_field_mask)
  then have "card {n. bit (mask_bf ?bf) n} = nat (t - f + 1)"
    by (simp only: card_run)
  then have card: "int (card {n. bit (mask_bf ?bf) n}) = t - f + 1"
    using assms by simp
  have closed': "lshift (2 ^ nat (t - f + 1) - 1) f = Inr (mask_bf ?bf)"
    using closed by simp
  show ?thesis
    using init one closed' bits card by blast
qed

text \<open>The field of bits 3 to 5.\<close>

theorem mask_construction_witness:
  "\<exists>bf. BitField_init 3 5 = Inr bf
     \<and> lshift 1 (5 - 3 + 1) = Inr (2 ^ nat (5 - 3 + 1))
     \<and> lshift (2 ^ nat (5 - 3 + 1) - 1) 3 = Inr (mask_bf bf)
     \<and> (\<forall>n. bit (mask_bf bf) n \<longleftrightarrow> 3 \<le> int n \<and> int n \<le> 5)
     \<and> int (card {n. bit (mask_bf bf) n}) = 5 - 3 + 1"
  using mask_construction [of 3 5] by simp

subsection \<open>C3: sign symmetry\<close>




subsection \<open>C4: extraction\<close>

text \<open>
  Claim C4. For every field accepted by the constructor and every word in \<open>[0, 2 ^ 32)\<close>,
  \<open>extract\<close> does not fail, returns \<open>(mask & word) >> from_bit\<close>, and the result lies in
  \<open>[0, 2 ^ (to_bit - from_bit + 1) - 1]\<close>.
\<close>

theorem extract_correct:
  assumes "BitField_init f t = Inr bf" and "0 \<le> word" and "word < 2 ^ 32"
  shows "\<exists>r. extract_bf bf word = Inr r
     \<and> rshift (mask_bf bf AND word) (from_bit bf) = Inr r
     \<and> r = (mask_bf bf AND word) div 2 ^ nat f
     \<and> 0 \<le> r \<and> r \<le> 2 ^ nat (t - f + 1) - 1"
proof -
  let ?k = "nat f" and ?w = "nat (t - f + 1)"
  let ?r = "drop_bit ?k (mask_bf bf AND word)"
  note bf = init_Inr [OF assms(1)]
  have ex: "extract_bf bf word = Inr ?r" and rs: "rshift (mask_bf bf AND word) (from_bit bf) = Inr ?r"
    using bf(1,2) by (simp_all add: extract_bf_def rshift_def)
  have "mask_bf bf = push_bit ?k (mask ?w)"
    using bf(1) by simp
  then have "?r = take_bit ?w (drop_bit ?k word)"
    by (simp only: extract_mask)
  then have "0 \<le> ?r" and "?r < 2 ^ ?w"
    by simp_all
  then show ?thesis
    using ex rs by (simp add: drop_bit_eq_div)
qed

text \<open>The example \<open>BitField(0,3).extract(0b10110101)\<close>.\<close>

theorem extract_correct_witness:
  "\<exists>r. extract_bf \<lparr>from_bit = 0, to_bit = 3, mask_bf = 15\<rparr> 181 = Inr r
     \<and> rshift (15 AND 181) 0 = Inr r
     \<and> r = (15 AND 181) div 2 ^ nat 0
     \<and> 0 \<le> r \<and> r \<le> 2 ^ nat (3 - 0 + 1) - 1"
proof -
  have init: "BitField_init 0 3 = Inr \<lparr>from_bit = 0, to_bit = 3, mask_bf = 15\<rparr>"
    by (simp add: init_ok mask_eq_exp_minus_1)
  show ?thesis
    using extract_correct [OF init, of 181] by simp
qed

subsection \<open>C5: when construction fails\<close>

text \<open>
  Claim C5. Constructing a field from integers \<open>(from_bit, to_bit)\<close> raises (an
  \<open>AssertionError\<close>) if and only if \<open>0 \<le> from_bit < 32\<close> and
  \<open>from_bit \<le> to_bit \<le> 32\<close> do not both hold; \<open>BitField(5, 3)\<close> raises, and
  \<open>to_bit = 32\<close> is accepted.
\<close>

theorem init_raises_iff:
  "(BitField_init f t = Inl AssertionError) = (\<not> (0 \<le> f \<and> f < 32 \<and> f \<le> t \<and> t \<le> 32))
   \<and> (\<exists>e. BitField_init f t = Inl e) = (\<not> (0 \<le> f \<and> f < 32 \<and> f \<le> t \<and> t \<le> 32))
   \<and> BitField_init 5 3 = Inl AssertionError
   \<and> (\<exists>bf. BitField_init 0 32 = Inr bf)"
  by (auto simp add: BitField_init_def WORD_SIZE_def)

text \<open>The constructor at \<open>(32, 32)\<close>, where the first assertion fails.\<close>

theorem init_raises_iff_witness:
  "BitField_init 32 32 = Inl AssertionError \<and> (\<exists>e. BitField_init 32 32 = Inl e)"
  using init_raises_iff [of 32 32] by simp

subsection \<open>C6: insertion truncates\<close>

text \<open>
  Claim C6. For every field accepted by the constructor, every non-negative value (also one
  wider than the field) and every word in \<open>[0, 2 ^ 32)\<close>, \<open>insert\<close> does not fail and
  \<open>insert(value, word) = insert(value & (mask >> from_bit), word)\<close>.
\<close>

theorem insert_truncates:
  assumes "BitField_init f t = Inr bf" and "0 \<le> v" and "0 \<le> word" and "word < 2 ^ 32"
  shows "\<exists>r s. insert_bf bf v word = Inr r \<and> rshift (mask_bf bf) (from_bit bf) = Inr s
     \<and> insert_bf bf (v AND s) word = Inr r"
proof -
  let ?k = "nat f" and ?w = "nat (t - f + 1)"
  note bf = init_Inr [OF assms(1)]
  have m: "mask_bf bf = push_bit ?k (mask ?w)" and fb: "from_bit bf = f"
    using bf(1) by simp_all
  have s: "rshift (mask_bf bf) (from_bit bf) = Inr (mask ?w)"
    using bf(2) by (simp add: rshift_def m fb drop_push)
  have "take_bit ?w (v AND mask ?w) = take_bit ?w v"
    by (simp add: take_bit_eq_mask)
  then have "insert_bf bf (v AND mask ?w) word = insert_bf bf v word"
    by (simp only: insert_Inr [OF assms(1)])
  then show ?thesis
    using s insert_Inr [OF assms(1)] by simp
qed

text \<open>The value \<open>0b101101\<close>, three bits too wide for the field of bits 3 to 5.\<close>

theorem insert_truncates_witness:
  "\<exists>r s. insert_bf \<lparr>from_bit = 3, to_bit = 5, mask_bf = 56\<rparr> 45 6 = Inr r
     \<and> rshift 56 3 = Inr s
     \<and> insert_bf \<lparr>from_bit = 3, to_bit = 5, mask_bf = 56\<rparr> (45 AND s) 6 = Inr r"
proof -
  have init: "BitField_init 3 5 = Inr \<lparr>from_bit = 3, to_bit = 5, mask_bf = 56\<rparr>"
    by (simp add: init_ok mask_eq_exp_minus_1)
  show ?thesis
    using insert_truncates [OF init, of 45 6] by simp
qed

subsection \<open>C7: the mask as a 32-bit value\<close>

text \<open>
  Claim C7 says that the mask of every accepted field lies in \<open>[0, 2 ^ 32 - 1]\<close>. The
  second assertion of the constructor accepts \<open>to_bit = 32\<close>, and the loops then build a
  mask with bit 32 set: \<open>BitField(0, 32)\<close> has the 33-bit mask \<open>2 ^ 33 - 1\<close>. (For
  \<open>to_bit \<le> 31\<close> the mask is in range: lemma \<open>mask_32_bits\<close>.)
\<close>

theorem mask_exceeds_32_bits:
  "BitField_init 0 32 = Inr \<lparr>from_bit = 0, to_bit = 32, mask_bf = 8589934591\<rparr>
   \<and> \<not> ((8589934591::int) \<le> 2 ^ 32 - 1)"
  by (simp add: init_ok mask_eq_exp_minus_1)

subsection \<open>C8: signed extraction\<close>

text \<open>
  Claim C8. For every field accepted by the constructor whose width
  \<open>to_bit - from_bit + 1\<close> is greater than 1 and every word in \<open>[0, 2 ^ 32)\<close>,
  \<open>extract_signed\<close> does not fail, its result lies in
  \<open>[- 2 ^ (width - 1), 2 ^ (width - 1) - 1]\<close>, and it is \<open>sign_extend\<close> applied to the
  result of \<open>extract\<close> and the width.
\<close>

theorem extract_signed_range:
  assumes "BitField_init f t = Inr bf" and "t - f + 1 > 1" and "0 \<le> word" and "word < 2 ^ 32"
  shows "\<exists>r x. extract_signed bf word = Inr r
     \<and> - (2 ^ nat (t - f)) \<le> r \<and> r \<le> 2 ^ nat (t - f) - 1
     \<and> extract_bf bf word = Inr x \<and> sign_extend x (t - f + 1) = Inr r"
proof -
  let ?w = "t - f + 1"
  let ?x = "take_bit (nat ?w) (drop_bit (nat f) word)"
  let ?r = "if 2 ^ nat (?w - 1) \<le> ?x then ?x - 2 ^ nat ?w else ?x"
  note bf = init_Inr [OF assms(1)]
  have ex: "extract_bf bf word = Inr ?x"
    by (rule extract_Inr [OF assms(1)])
  have x: "0 \<le> ?x" "?x < 2 ^ nat ?w"
    by simp_all
  have "?w < 2 ^ 33"
    using bf(2,5) by simp
  then have wl: "?w < 10 ^ MAX_STR_DIGITS"
    by (rule small_lt_limit)
  have "(2::int) ^ nat ?w \<le> 2 ^ 33"
    using bf(2,5) by (intro power_increasing) simp_all
  with x(2) have "?x < 2 ^ 33"
    by (rule order_less_le_trans)
  then have xl: "?x < 10 ^ MAX_STR_DIGITS"
    by (rule small_lt_limit)
  have se: "sign_extend ?x ?w = Inr ?r"
    by (rule sign_extend_fits [OF assms(2) wl x(1) xl x(2)])
  have "to_bit bf - from_bit bf + 1 = ?w"
    using bf(1) by simp
  then have es: "extract_signed bf word = Inr ?r"
    using ex se by (simp add: extract_signed_def)
  have pw: "(2::int) ^ nat ?w = 2 * 2 ^ nat (t - f)"
    using assms(2) by (simp add: nat_add_distrib flip: power_Suc)
  have w1: "?w - 1 = t - f"
    by simp
  have range: "- p \<le> (if p \<le> y then y - 2 * p else y) \<and> (if p \<le> y then y - 2 * p else y) \<le> p - 1"
    if "0 \<le> y" and "y < 2 * p" for y p :: int
    using that by auto
  have "- (2 ^ nat (t - f)) \<le> ?r \<and> ?r \<le> 2 ^ nat (t - f) - 1"
    using range [OF x(1), of "2 ^ nat (t - f)"] x(2) by (simp only: pw w1)
  then show ?thesis
    using es ex se by blast
qed

text \<open>The example \<open>BitField(0,7).extract_signed(0b11111111)\<close>.\<close>

theorem extract_signed_range_witness:
  "\<exists>r x. extract_signed \<lparr>from_bit = 0, to_bit = 7, mask_bf = 255\<rparr> 255 = Inr r
     \<and> - (2 ^ nat (7 - 0)) \<le> r \<and> r \<le> 2 ^ nat (7 - 0) - 1
     \<and> extract_bf \<lparr>from_bit = 0, to_bit = 7, mask_bf = 255\<rparr> 255 = Inr x
     \<and> sign_extend x (7 - 0 + 1) = Inr r"
proof -
  have init: "BitField_init 0 7 = Inr \<lparr>from_bit = 0, to_bit = 7, mask_bf = 255\<rparr>"
    by (simp add: init_ok mask_eq_exp_minus_1)
  show ?thesis
    using extract_signed_range [OF init, of 255] by simp
qed

subsection \<open>C9: when \<open>sign_extend\<close> fails\<close>




subsection \<open>C10: insertion changes the field only\<close>

text \<open>
  Claim C10. For every field accepted by the constructor, every non-negative value and every
  word in \<open>[0, 2 ^ 32)\<close>, \<open>insert\<close> returns a word that agrees with \<open>word\<close> on every
  bit outside positions \<open>from_bit..to_bit\<close>, that is
  \<open>insert(value, word) & ~mask = word & ~mask\<close> with \<open>~mask\<close> taken over 32 bits, and
  every bit set in \<open>word\<close> is still set in the result.
\<close>

theorem insert_frame:
  assumes "BitField_init f t = Inr bf" and "0 \<le> v" and "0 \<le> word" and "word < 2 ^ 32"
  shows "\<exists>r. insert_bf bf v word = Inr r
     \<and> r AND (NOT (mask_bf bf) AND (2 ^ 32 - 1)) = word AND (NOT (mask_bf bf) AND (2 ^ 32 - 1))
     \<and> (\<forall>n. \<not> (f \<le> int n \<and> int n \<le> t) \<longrightarrow> bit r n = bit word n)
     \<and> r AND word = word"
proof -
  let ?k = "nat f" and ?w = "nat (t - f + 1)"
  let ?r = "word OR push_bit ?k (take_bit ?w v)"
  note bf = init_Inr [OF assms(1)]
  have m: "mask_bf bf = push_bit ?k (mask ?w)"
    using bf(1) by simp
  have ins: "insert_bf bf v word = Inr ?r"
    by (rule insert_Inr [OF assms(1)])
  have out: "push_bit ?k (take_bit ?w v) AND NOT (push_bit ?k (mask ?w)) = 0"
    by (rule bit_eqI) (auto simp add: bit_simps)
  have "?r AND NOT (mask_bf bf) = word AND NOT (mask_bf bf)"
    by (simp only: m bit.conj_disj_distrib2 out) simp
  then have frame: "?r AND (NOT (mask_bf bf) AND (2 ^ 32 - 1)) = word AND (NOT (mask_bf bf) AND (2 ^ 32 - 1))"
    by (simp only: and.assoc [symmetric])
  have bits: "bit ?r n = bit word n" if "\<not> (f \<le> int n \<and> int n \<le> t)" for n
    using that bf(2,4) by (auto simp add: bit_simps)
  have keep: "?r AND word = word"
    by (rule bit_eqI) (auto simp add: bit_simps)
  show ?thesis
    using ins frame bits keep by blast
qed

text \<open>Inserting into a word that already has bit 4 set.\<close>

theorem insert_frame_witness:
  "\<exists>r. insert_bf \<lparr>from_bit = 3, to_bit = 5, mask_bf = 56\<rparr> 5 22 = Inr r
     \<and> r AND (NOT 56 AND (2 ^ 32 - 1)) = 22 AND (NOT 56 AND (2 ^ 32 - 1))
     \<and> (\<forall>n. \<not> (3 \<le> int n \<and> int n \<le> 5) \<longrightarrow> bit r n = bit (22::int) n)
     \<and> r AND 22 = 22"
proof -
  have init: "BitField_init 3 5 = Inr \<lparr>from_bit = 3, to_bit = 5, mask_bf = 56\<rparr>"
    by (simp add: init_ok mask_eq_exp_minus_1)
  show ?thesis
    using insert_frame [OF init, of 5 22] by simp
qed

end
